theory Spec2Isabelle
  imports Main
begin

section \<open>JavaScript strings\<close>

text \<open>
  A JavaScript string is a sequence of UTF-16 code units and \<open>length\<close> counts them.
  A string is modelled as a \<^typ>\<open>string\<close> whose characters are the code units in the
  range 0 to 255; indices and lengths that the source computes with are \<^typ>\<open>int\<close>,
  since \<open>indexOf\<close> answers -1 and the budgets are arbitrary numbers.
\<close>

abbreviation LF :: char where "LF \<equiv> CHR 0x0A"

text \<open>
  \<open>String.prototype.substring(start, end)\<close>: both arguments are clamped to the range
  from 0 to the length, and swapped when the first is the larger one.
\<close>

definition substring :: "string \<Rightarrow> int \<Rightarrow> int \<Rightarrow> string" where
  "substring s start end' =
     (let n = int (length s);
          a = min (max start 0) n;
          b = min (max end' 0) n
      in take (nat (max a b - min a b)) (drop (nat (min a b)) s))"

text \<open>\<open>substring(start)\<close> with the end omitted runs to the end of the string.\<close>

definition substringFrom :: "string \<Rightarrow> int \<Rightarrow> string" where
  "substringFrom s start = substring s start (int (length s))"

text \<open>\<open>indexOf\<close> and \<open>lastIndexOf\<close> of a single character; -1 when it does not occur.\<close>

definition indexOf :: "string \<Rightarrow> char \<Rightarrow> int" where
  "indexOf s c = (if c \<in> set s then int (length (takeWhile (\<lambda>x. x \<noteq> c) s)) else - 1)"

definition lastIndexOf :: "string \<Rightarrow> char \<Rightarrow> int" where
  "lastIndexOf s c =
     (if c \<in> set s then int (length s) - 1 - int (length (takeWhile (\<lambda>x. x \<noteq> c) (rev s)))
      else - 1)"

section \<open>The diff truncator\<close>

definition marker :: string where
  "marker = ''[... diff truncated ...]''"

text \<open>
  \<open>truncateDiff(diff, maxLength)\<close>, with an integer budget. The source compares
  \<open>lastNewline > maxLength * 0.8\<close> in floating point. The double nearest to 0.8 is
  \<open>0.8 * (1 + 2^-54)\<close>, so for a budget below \<open>2^50\<close> in size the rounded product is
  four fifths of the budget where that is an integer and is on the same side of every
  integer as four fifths of the budget otherwise: the test is
  \<open>5 * lastNewline > 4 * maxLength\<close>. The separator and the marker are the literal
  \<open>'\n\n[... diff truncated ...]'\<close> of the source.
\<close>

definition truncateDiff :: "string \<Rightarrow> int \<Rightarrow> string" where
  "truncateDiff diff maxLength =
     (if int (length diff) \<le> maxLength then diff
      else
        let truncated = substring diff 0 maxLength;
            lastNewline = lastIndexOf truncated LF
        in if 5 * lastNewline > 4 * maxLength
           then substring truncated 0 lastNewline @ [LF, LF] @ marker
           else truncated @ [LF, LF] @ marker)"

section \<open>Whitespace, lines and joins\<close>

text \<open>
  \<open>trim\<close> removes white space and line terminators from both ends. Of the code units
  below 256 these are tab, line feed, vertical tab, form feed, carriage return, space
  and the no-break space; the class \<open>\s\<close> of a regular expression is the same set.
\<close>

definition isWhiteSpace :: "char \<Rightarrow> bool" where
  "isWhiteSpace c \<longleftrightarrow>
     c \<in> set [CHR 0x09, CHR 0x0A, CHR 0x0B, CHR 0x0C, CHR 0x0D, CHR 0x20, CHR 0xA0]"

definition trim :: "string \<Rightarrow> string" where
  "trim s = rev (dropWhile isWhiteSpace (rev (dropWhile isWhiteSpace s)))"

text \<open>
  \<open>split(c)\<close> on a one-character separator. The answer always has at least one
  element, so the empty case of the inner \<open>case\<close> is never taken.
\<close>

fun split :: "string \<Rightarrow> char \<Rightarrow> string list" where
  "split [] c = [[]]"
| "split (x # xs) c =
     (if x = c then [] # split xs c
      else (case split xs c of [] \<Rightarrow> [[x]] | l # ls \<Rightarrow> (x # l) # ls))"

fun join :: "string list \<Rightarrow> string \<Rightarrow> string" where
  "join [] sep = []"
| "join [x] sep = x"
| "join (x # y # r) sep = x @ sep @ join (y # r) sep"

text \<open>\<open>startsWith\<close>, \<open>endsWith\<close> and \<open>String.prototype.includes\<close> (a substring test).\<close>

fun startsWith :: "string \<Rightarrow> string \<Rightarrow> bool" where
  "startsWith s [] = True"
| "startsWith [] (p # ps) = False"
| "startsWith (x # xs) (p # ps) = (x = p \<and> startsWith xs ps)"

definition endsWith :: "string \<Rightarrow> string \<Rightarrow> bool" where
  "endsWith s p = startsWith (rev s) (rev p)"

fun includesStr :: "string \<Rightarrow> string \<Rightarrow> bool" where
  "includesStr [] p = (p = [])"
| "includesStr (x # xs) p = (startsWith (x # xs) p \<or> includesStr xs p)"

text \<open>
  \<open>toLowerCase\<close> on the code units below 256: the ASCII capitals and the Latin-1
  capitals (all of 0xC0 to 0xDE but the multiplication sign) move up by 32.
\<close>

definition toLowerChar :: "char \<Rightarrow> char" where
  "toLowerChar c =
     (let n = (of_char c :: nat)
      in if (65 \<le> n \<and> n \<le> 90) \<or> (192 \<le> n \<and> n \<le> 222 \<and> n \<noteq> 215)
         then char_of (n + 32) else c)"

definition toLowerCase :: "string \<Rightarrow> string" where
  "toLowerCase s = map toLowerChar s"

text \<open>
  A regular expression with the flag \<open>i\<close> compares an ASCII letter of the pattern with
  a code unit of the input up to ASCII case; no other code unit is folded onto an
  ASCII letter.
\<close>

definition foldCase :: "char \<Rightarrow> char" where
  "foldCase c =
     (let n = (of_char c :: nat) in if 65 \<le> n \<and> n \<le> 90 then char_of (n + 32) else c)"

text \<open>Decimal rendering of an integer, as a template literal prints a number.\<close>

function showNat :: "nat \<Rightarrow> string" where
  "showNat n =
     (if n < 10 then [''0123456789'' ! n]
      else showNat (n div 10) @ [''0123456789'' ! (n mod 10)])"
  by pat_completeness auto
termination
  by (relation "measure id") auto

definition showInt :: "int \<Rightarrow> string" where
  "showInt i = (if i < 0 then CHR ''-'' # showNat (nat (- i)) else showNat (nat i))"

section \<open>The message post-processor\<close>

text \<open>
  The four markdown patterns have one shape: \<open>k\<close> copies of a delimiter, a run of
  characters other than the delimiter (at least \<open>minBody\<close> of them), and \<open>k\<close> copies of
  the delimiter again. The run is matched greedily, and giving characters back never
  helps, because the character after a shorter run is not the delimiter. A match
  answers the run and the text after the match.
\<close>

definition matchDelimited :: "char \<Rightarrow> nat \<Rightarrow> nat \<Rightarrow> string \<Rightarrow> (string \<times> string) option" where
  "matchDelimited d k minBody s =
     (if 0 < k \<and> take k s = replicate k d then
        (let body = takeWhile (\<lambda>x. x \<noteq> d) (drop k s);
             after = dropWhile (\<lambda>x. x \<noteq> d) (drop k s)
         in if minBody \<le> length body \<and> take k after = replicate k d
            then Some (body, drop k after) else None)
      else None)"

text \<open>
  \<open>replace\<close> with the flag \<open>g\<close>: the leftmost match is replaced (by the run when
  \<open>keep\<close>, by nothing otherwise) and the search goes on after it; where nothing
  matches the character is kept and the search moves one character on.
\<close>

function replaceDelimited :: "char \<Rightarrow> nat \<Rightarrow> nat \<Rightarrow> bool \<Rightarrow> string \<Rightarrow> string" where
  "replaceDelimited d k minBody keep [] = []"
| "replaceDelimited d k minBody keep (x # xs) =
     (case matchDelimited d k minBody (x # xs) of
        Some (body, rest) \<Rightarrow> (if keep then body else []) @ replaceDelimited d k minBody keep rest
      | None \<Rightarrow> x # replaceDelimited d k minBody keep xs)"
  by pat_completeness auto
termination
proof (relation "measure (\<lambda>(d, k, minBody, keep, s). length s)")
  fix d :: char and k minBody :: nat and keep :: bool and x :: char and xs :: string
    and x2 :: "string \<times> string" and body rest :: string
  assume m: "matchDelimited d k minBody (x # xs) = Some x2" and x2: "(body, rest) = x2"
  let ?after = "dropWhile (\<lambda>x. x \<noteq> d) (drop k (x # xs))"
  from m x2 have k: "0 < k" and rest: "rest = drop k ?after"
    by (auto simp: matchDelimited_def Let_def split: if_splits)
  have "length rest \<le> length ?after" using rest by simp
  also have "\<dots> \<le> length (drop k (x # xs))" by (rule length_dropWhile_le)
  also have "\<dots> < length (x # xs)" using k by simp
  finally show "((d, k, minBody, keep, rest), (d, k, minBody, keep, x # xs))
      \<in> measure (\<lambda>(d, k, minBody, keep, s). length s)" by simp
qed auto

text \<open>\<open>/ +/g\<close> to one space, and \<open>/\n{3,}/g\<close> to two line feeds.\<close>

function collapseSpaces :: "string \<Rightarrow> string" where
  "collapseSpaces [] = []"
| "collapseSpaces (x # xs) =
     (if x = CHR '' '' then CHR '' '' # collapseSpaces (dropWhile (\<lambda>c. c = CHR '' '') xs)
      else x # collapseSpaces xs)"
  by pat_completeness auto
termination
  by (relation "measure length") (auto simp: less_Suc_eq_le length_dropWhile_le)

function collapseNewlines :: "string \<Rightarrow> string" where
  "collapseNewlines [] = []"
| "collapseNewlines (x # xs) =
     (if x = LF \<and> 3 \<le> length (takeWhile (\<lambda>c. c = LF) (x # xs))
      then LF # LF # collapseNewlines (dropWhile (\<lambda>c. c = LF) xs)
      else x # collapseNewlines xs)"
  by pat_completeness auto
termination
  by (relation "measure length") (auto simp: less_Suc_eq_le length_dropWhile_le)

text \<open>Remove any markdown formatting.\<close>

definition removeMarkdown :: "string \<Rightarrow> string" where
  "removeMarkdown processed =
     (let p1 = replaceDelimited (CHR 0x60) 3 0 False processed;
          p2 = replaceDelimited (CHR 0x60) 1 1 True p1;
          p3 = replaceDelimited (CHR ''*'') 2 1 True p2
      in replaceDelimited (CHR ''*'') 1 1 True p3)"

text \<open>Clean up multiple spaces and newlines.\<close>

definition cleanupSpaces :: "string \<Rightarrow> string" where
  "cleanupSpaces processed = collapseNewlines (collapseSpaces processed)"

text \<open>Ensure the first line length limit on the array of lines.\<close>

definition ensureFirstLine :: "string list \<Rightarrow> int \<Rightarrow> string list" where
  "ensureFirstLine lines maxLength =
     (if int (length (hd lines)) > maxLength then
        (let firstLine = hd lines;
             colonIndex = indexOf firstLine (CHR '':'')
         in if colonIndex > 0 \<and> colonIndex < maxLength then
              (let prefix = substring firstLine 0 (colonIndex + 1);
                   description = trim (substringFrom firstLine (colonIndex + 1));
                   maxDescLength = maxLength - int (length prefix) - 1
               in if int (length description) > maxDescLength
                  then lines[0 := prefix @ '' '' @ trim (substring description 0 maxDescLength)]
                  else lines)
            else lines[0 := trim (substring firstLine 0 maxLength)])
      else lines)"

section \<open>The message validator\<close>

record Validation =
  valid :: bool
  errors :: "string list"
  warnings :: "string list"

text \<open>
  The conventional-commit pattern
  \<open>/^(feat|fix|docs|style|refactor|perf|test|chore|ci|build|revert)(\(.+\))?: .+/\<close>,
  used with \<open>test\<close>. The dot matches every character but a line terminator
  (line feed and carriage return, of the code units below 256).
\<close>

definition commitTypes :: "string list" where
  "commitTypes = [''feat'', ''fix'', ''docs'', ''style'', ''refactor'', ''perf'', ''test'',
     ''chore'', ''ci'', ''build'', ''revert'']"

definition isLineTerminator :: "char \<Rightarrow> bool" where
  "isLineTerminator c \<longleftrightarrow> c = LF \<or> c = CHR 0x0D"

text \<open>The tail \<open>: .+\<close> of the pattern: a colon, a space and one more character.\<close>

fun matchColonDesc :: "string \<Rightarrow> bool" where
  "matchColonDesc (a # b # c # r) \<longleftrightarrow> a = CHR '':'' \<and> b = CHR '' '' \<and> \<not> isLineTerminator c"
| "matchColonDesc _ \<longleftrightarrow> False"

text \<open>
  Inside the scope, after its first character: either the scope closes here and the
  tail follows, or the scope takes one more character.
\<close>

fun matchScopeRest :: "string \<Rightarrow> bool" where
  "matchScopeRest [] \<longleftrightarrow> False"
| "matchScopeRest (x # xs) \<longleftrightarrow>
     (x = CHR '')'' \<and> matchColonDesc xs) \<or> (\<not> isLineTerminator x \<and> matchScopeRest xs)"

fun matchScope :: "string \<Rightarrow> bool" where
  "matchScope (a # b # r) \<longleftrightarrow> a = CHR ''('' \<and> \<not> isLineTerminator b \<and> matchScopeRest r"
| "matchScope _ \<longleftrightarrow> False"

definition conventionalRegex :: "string \<Rightarrow> bool" where
  "conventionalRegex firstLine =
     list_ex (\<lambda>t. startsWith firstLine t \<and>
                (let r = drop (length t) firstLine in matchScope r \<or> matchColonDesc r))
       commitTypes"

text \<open>\<open>/(ed|ing|s)$/i\<close>, used with \<open>test\<close>.\<close>

definition verbEndingRegex :: "string \<Rightarrow> bool" where
  "verbEndingRegex firstWord =
     (let w = map foldCase firstWord
      in endsWith w ''ed'' \<or> endsWith w ''ing'' \<or> endsWith w ''s'')"

text \<open>
  \<open>replace(/^[^:]*:\s*/, '')\<close>: everything up to the first colon goes, with the white
  space after it; a line without a colon is left as it is.
\<close>

definition stripPrefix :: "string \<Rightarrow> string" where
  "stripPrefix firstLine =
     (if CHR '':'' \<in> set firstLine
      then dropWhile isWhiteSpace (drop 1 (dropWhile (\<lambda>c. c \<noteq> CHR '':'') firstLine))
      else firstLine)"

definition validateMessage :: "string \<Rightarrow> string \<Rightarrow> Validation" where
  \<open>validateMessage message format =
     (let lines = split message LF;
          firstLine = hd lines;
          v0 = \<lparr>valid = True, errors = [], warnings = []\<rparr>;
          v1 = (if length firstLine > 72
                then v0\<lparr>errors := errors v0 @ [''First line is too long (over 72 characters)''],
                       valid := False\<rparr>
                else if length firstLine > 50
                then v0\<lparr>warnings := warnings v0 @
                         [''First line is longer than recommended 50 characters'']\<rparr>
                else v0);
          v2 = (if format = ''conventional'' \<and> \<not> conventionalRegex firstLine
                then v1\<lparr>errors := errors v1 @
                         [''First line does not follow conventional commit format''],
                       valid := False\<rparr>
                else v1);
          firstWord = hd (split (stripPrefix firstLine) (CHR '' ''));
          v3 = (if verbEndingRegex firstWord
                then v2\<lparr>warnings := warnings v2 @
                         [''Consider using imperative mood (e.g., "add" instead of "added")'']\<rparr>
                else v2)
      in if length lines > 1 \<and> lines ! 1 \<noteq> []
         then v3\<lparr>warnings := warnings v3 @
                  [''Consider adding a blank line after the first line'']\<rparr>
         else v3)\<close>

section \<open>Generation options\<close>

text \<open>
  The options object. A field that is absent (or not a number) is \<open>None\<close>;
  \<open>options.x || d\<close> takes \<open>d\<close> for an absent field and for 0.
\<close>

record options =
  format :: "string option"
  maxLength :: "int option"
  maxDiffLength :: "int option"

definition orDefault :: "int option \<Rightarrow> int \<Rightarrow> int" where
  "orDefault v d = (case v of None \<Rightarrow> d | Some n \<Rightarrow> if n = 0 then d else n)"

definition postProcessMessage :: "string \<Rightarrow> options \<Rightarrow> string" where
  "postProcessMessage message options =
     (let processed = cleanupSpaces (removeMarkdown (trim message));
          lines = split processed LF
      in trim (join (ensureFirstLine lines (orDefault (maxLength options) 50)) [LF]))"

section \<open>The version-control collaborator\<close>

datatype error = Error string

text \<open>
  What \<open>simple-git\<close> answers to \<open>status()\<close>. Its fields \<open>modified\<close>, \<open>deleted\<close> and
  \<open>conflicted\<close> carry the prefix \<open>sg_\<close> here, to keep them apart from the fields of
  the snapshot below.
\<close>

record StatusResult =
  staged :: "string list"
  sg_modified :: "string list"
  sg_deleted :: "string list"
  not_added :: "string list"
  sg_conflicted :: "string list"

text \<open>
  The status snapshot of \<open>getStatus\<close>. Its method \<open>hasChanges()\<close> closes over the
  answer of \<open>simple-git\<close>, which does not change, so it is the field \<open>hasChanges\<close>.
\<close>

record GitStatus =
  added :: "string list"
  modified :: "string list"
  deleted :: "string list"
  untracked :: "string list"
  conflicted :: "string list"
  hasChanges :: bool

text \<open>
  The repository as the manager sees it: the answers of \<open>git.status()\<close>,
  \<open>git.diff(['--cached'])\<close> and \<open>git.diff()\<close>, each an answer or the error thrown.
\<close>

record SimpleGit =
  git_status :: "error + StatusResult"
  git_diff_cached :: "error + string"
  git_diff :: "error + string"

definition getStatus :: "SimpleGit \<Rightarrow> error + GitStatus" where
  "getStatus git =
     (case git_status git of
        Inl (Error msg) \<Rightarrow> Inl (Error (''Failed to get git status: '' @ msg))
      | Inr st \<Rightarrow>
          Inr \<lparr>added = staged st, modified = sg_modified st, deleted = sg_deleted st,
               untracked = not_added st, conflicted = sg_conflicted st,
               hasChanges = (length (staged st) > 0 \<or> length (sg_modified st) > 0 \<or>
                             length (sg_deleted st) > 0 \<or> length (not_added st) > 0)\<rparr>)"

definition getDiff :: "SimpleGit \<Rightarrow> error + string" where
  "getDiff git =
     (case git_diff_cached git of
        Inl (Error msg) \<Rightarrow> Inl (Error (''Failed to get git diff: '' @ msg))
      | Inr d \<Rightarrow>
          if trim d = [] then
            (case git_diff git of
               Inl (Error msg) \<Rightarrow> Inl (Error (''Failed to get git diff: '' @ msg))
             | Inr d' \<Rightarrow> Inr d')
          else Inr d)"

definition createSummary :: "GitStatus \<Rightarrow> string \<Rightarrow> string" where
  "createSummary st d =
     ''Git Status:'' @ [LF] @
     (if length (added st) > 0 then ''Added: '' @ join (added st) '', '' @ [LF] else []) @
     (if length (modified st) > 0 then ''Modified: '' @ join (modified st) '', '' @ [LF] else []) @
     (if length (deleted st) > 0 then ''Deleted: '' @ join (deleted st) '', '' @ [LF] else []) @
     (if length (untracked st) > 0 then ''Untracked: '' @ join (untracked st) '', '' @ [LF] else []) @
     [LF] @ ''Changes:'' @ [LF] @ d"

text \<open>
  The object \<open>{status, diff}\<close> that the generator's functions take; the type of \<open>diff\<close>
  is \<open>string\<close> for \<open>buildPrompt\<close> and \<open>string[]\<close> for \<open>getSuggestions\<close>. The summary
  of \<open>getDiffSummary\<close> has the field \<open>summary\<close> besides.
\<close>

record 'd DiffInput =
  status :: GitStatus
  diff :: 'd

record DiffSummary = "string DiffInput" +
  summary :: string

definition getDiffSummary :: "SimpleGit \<Rightarrow> error + DiffSummary" where
  "getDiffSummary git =
     (case getStatus git of
        Inl (Error msg) \<Rightarrow> Inl (Error (''Failed to get diff summary: '' @ msg))
      | Inr st \<Rightarrow>
          (case getDiff git of
             Inl (Error msg) \<Rightarrow> Inl (Error (''Failed to get diff summary: '' @ msg))
           | Inr d \<Rightarrow> Inr \<lparr>status = st, diff = d, summary = createSummary st d\<rparr>))"

section \<open>The prompt builder\<close>

definition buildPrompt :: "(string, 'm) DiffInput_scheme \<Rightarrow> options \<Rightarrow> string" where
  "buildPrompt diffSummary options =
     ''Generate a commit message for the following Git changes:'' @ [LF, LF] @
     ''Files changed:'' @ [LF] @
     (if length (added (status diffSummary)) > 0
      then ''- Added: '' @ join (added (status diffSummary)) '', '' @ [LF] else []) @
     (if length (modified (status diffSummary)) > 0
      then ''- Modified: '' @ join (modified (status diffSummary)) '', '' @ [LF] else []) @
     (if length (deleted (status diffSummary)) > 0
      then ''- Deleted: '' @ join (deleted (status diffSummary)) '', '' @ [LF] else []) @
     (if length (untracked (status diffSummary)) > 0
      then ''- Untracked: '' @ join (untracked (status diffSummary)) '', '' @ [LF] else []) @
     [LF] @ ''Code changes:'' @ [LF] @
     truncateDiff (diff diffSummary) (orDefault (maxDiffLength options) 3000) @
     [LF, LF] @ ''Instructions:'' @ [LF] @
     (if format options = Some ''conventional''
      then ''- Use conventional commit format (type(scope): description)'' @ [LF] else []) @
     ''- Keep the first line under '' @ showInt (orDefault (maxLength options) 50) @
     '' characters'' @ [LF] @
     ''- Use present tense, imperative mood'' @ [LF] @
     ''- Focus on what the change accomplishes'' @ [LF]"

section \<open>The generator\<close>

text \<open>
  The generation backend answers a prompt with a text (the field \<open>text\<close> of its
  response) or fails. The prompts it has been given are the state that
  \<open>generateCommitMessage\<close> threads: a call of \<open>agent.generate\<close> appends its prompt.
  An error of the collaborators goes to the caller as it is. The response is also
  written to the console, which is not part of the state here.
\<close>

type_synonym agent = "string \<Rightarrow> error + string"

definition generateCommitMessage ::
  "SimpleGit \<Rightarrow> agent \<Rightarrow> options \<Rightarrow> string list \<Rightarrow> (error + string) \<times> string list" where
  "generateCommitMessage git agent options calls =
     (case getDiffSummary git of
        Inl e \<Rightarrow> (Inl e, calls)
      | Inr diffSummary \<Rightarrow>
          if \<not> hasChanges (status diffSummary)
          then (Inl (Error ''No changes detected in repository''), calls)
          else
            (let prompt = buildPrompt diffSummary options
             in case agent prompt of
                  Inl e \<Rightarrow> (Inl e, calls @ [prompt])
                | Inr text \<Rightarrow> (Inr (postProcessMessage text options), calls @ [prompt])))"

section \<open>The suggestion engine\<close>

record Suggestion =
  type :: string
  message :: string

text \<open>
  \<open>getSuggestions(message, diffSummary)\<close>. The parameter is declared with
  \<open>diff: string[]\<close>, so \<open>diffSummary.diff.includes(x)\<close> is \<open>Array.prototype.includes\<close>:
  it asks whether an element of the array is equal to \<open>x\<close>. The patterns
  \<open>/\.(js|ts|py|java|go|rs|cpp|c)$/\<close> and \<open>/\.(md|rst|txt)$/i\<close> ask for an ending.
\<close>

definition codeExtensions :: "string list" where
  "codeExtensions = [''.js'', ''.ts'', ''.py'', ''.java'', ''.go'', ''.rs'', ''.cpp'', ''.c'']"

definition docExtensions :: "string list" where
  "docExtensions = [''.md'', ''.rst'', ''.txt'']"

definition getSuggestions :: "string \<Rightarrow> string list DiffInput \<Rightarrow> Suggestion list" where
  "getSuggestions msg diffSummary =
     (let files = added (status diffSummary) @ modified (status diffSummary);
          hasTestChanges = list_ex (\<lambda>file. includesStr file ''test'' \<or> includesStr file ''spec'') files;
          hasCodeChanges = list_ex (\<lambda>file. list_ex (endsWith file) codeExtensions) files;
          s1 = (if hasCodeChanges \<and> \<not> hasTestChanges
                then [\<lparr>type = ''warning'',
                       message = ''Consider adding tests for your code changes''\<rparr>]
                else []);
          hasDocChanges = list_ex (\<lambda>file. list_ex (endsWith (map foldCase file)) docExtensions \<or>
                                      includesStr (toLowerCase file) ''readme'') files;
          hasPublicAPIChanges = (''export'' \<in> set (diff diffSummary) \<or>
                                 ''public'' \<in> set (diff diffSummary));
          s2 = (if hasPublicAPIChanges \<and> \<not> hasDocChanges
                then s1 @ [\<lparr>type = ''info'',
                            message = ''Consider updating documentation for API changes''\<rparr>]
                else s1);
          s3 = (if ''BREAKING'' \<in> set (diff diffSummary) \<or> ''breaking'' \<in> set (diff diffSummary) \<or>
                   length (deleted (status diffSummary)) > 0
                then s2 @ [\<lparr>type = ''warning'',
                            message = ''This may be a breaking change - consider using BREAKING CHANGE footer''\<rparr>]
                else s2);
          validation = validateMessage msg ''conventional'';
          s4 = (if \<not> valid validation
                then s3 @ map (\<lambda>error. \<lparr>type = ''error'', message = error\<rparr>) (errors validation)
                else s3)
      in if length (warnings validation) > 0
         then s4 @ map (\<lambda>warning. \<lparr>type = ''warning'', message = warning\<rparr>) (warnings validation)
         else s4)"

section \<open>Properties of the diff truncator\<close>

lemma substring_0: "substring s 0 e = take (nat e) s"
  by (cases "e \<le> 0"; cases "e \<le> int (length s)") (simp_all add: substring_def Let_def)

lemma lastIndexOf_notin: "c \<notin> set s \<Longrightarrow> lastIndexOf s c = - 1"
  by (simp add: lastIndexOf_def)

lemma lastIndexOf_append_last:
  assumes "c \<notin> set ys"
  shows "lastIndexOf (xs @ c # ys) c = int (length xs)"
proof -
  have "takeWhile (\<lambda>x. x \<noteq> c) (rev ys @ c # rev xs) = rev ys"
    using assms by (auto simp: takeWhile_tail)
  then show ?thesis by (simp add: lastIndexOf_def)
qed

lemma lastIndexOf_decomp:
  assumes "c \<in> set s"
  shows "\<exists>xs ys. s = xs @ c # ys \<and> c \<notin> set ys \<and> lastIndexOf s c = int (length xs)"
proof -
  from assms obtain xs ys where "s = xs @ c # ys" "c \<notin> set ys"
    by (meson split_list_last)
  then show ?thesis using lastIndexOf_append_last by blast
qed

lemma lastIndexOf_less: "lastIndexOf s c < int (length s)"
proof (cases "c \<in> set s")
  case True
  then obtain xs ys where "s = xs @ c # ys" "lastIndexOf s c = int (length xs)"
    using lastIndexOf_decomp by blast
  then show ?thesis by simp
next
  case False
  then show ?thesis by (simp add: lastIndexOf_def)
qed

lemma lastIndexOf_nonneg_iff: "0 \<le> lastIndexOf s c \<longleftrightarrow> c \<in> set s"
proof (cases "c \<in> set s")
  case True
  then obtain xs ys where "s = xs @ c # ys" "lastIndexOf s c = int (length xs)"
    using lastIndexOf_decomp by blast
  then show ?thesis using True by simp
next
  case False
  then show ?thesis by (simp add: lastIndexOf_def)
qed

lemma truncateDiff_fits: "int (length d) \<le> m \<Longrightarrow> truncateDiff d m = d"
  by (simp add: truncateDiff_def)

lemma truncateDiff_newline_cut:
  assumes "m < int (length d)" "4 * m < 5 * lastIndexOf (take (nat m) d) LF"
  shows "truncateDiff d m = take (nat (lastIndexOf (take (nat m) d) LF)) d @ [LF, LF] @ marker"
proof -
  let ?n = "lastIndexOf (take (nat m) d) LF"
  have "?n < int (length (take (nat m) d))" by (rule lastIndexOf_less)
  then have "nat ?n \<le> nat m" by simp
  then have "take (nat ?n) (take (nat m) d) = take (nat ?n) d" by (simp add: min_def)
  then show ?thesis using assms by (simp add: truncateDiff_def substring_0 Let_def)
qed

lemma truncateDiff_raw_cut:
  assumes "m < int (length d)" "\<not> 4 * m < 5 * lastIndexOf (take (nat m) d) LF"
  shows "truncateDiff d m = take (nat m) d @ [LF, LF] @ marker"
  using assms by (simp add: truncateDiff_def substring_0 Let_def)

lemma length_marker: "length marker = 24"
  by (simp add: marker_def)

text \<open>
  Claim C7. For every diff and every budget of at least 1, the result of
  \<open>truncateDiff\<close> is at most the budget, the 24 characters of the marker and two more
  characters long.
\<close>

theorem truncateDiff_length_bound:
  assumes "1 \<le> m"
  shows "int (length (truncateDiff d m)) \<le> m + int (length marker) + 2"
proof (cases "int (length d) \<le> m")
  case True
  then show ?thesis by (simp add: truncateDiff_fits)
next
  case False
  then have big: "m < int (length d)" by simp
  show ?thesis
  proof (cases "4 * m < 5 * lastIndexOf (take (nat m) d) LF")
    case True
    have "lastIndexOf (take (nat m) d) LF < int (length (take (nat m) d))"
      by (rule lastIndexOf_less)
    then have "lastIndexOf (take (nat m) d) LF < m"
      using big assms by simp
    then have "int (min (length d) (nat (lastIndexOf (take (nat m) d) LF))) \<le> m"
      using assms by linarith
    then show ?thesis using truncateDiff_newline_cut [OF big True] by simp
  next
    case False
    then show ?thesis using truncateDiff_raw_cut [OF big False] assms by simp
  qed
qed

theorem truncateDiff_length_bound_witness:
  "(1::int) \<le> 5 \<and>
   int (length (truncateDiff (''abcd'' @ [LF] @ ''fgh'') 5)) \<le> 5 + int (length marker) + 2"
  using truncateDiff_length_bound [of 5 "''abcd'' @ [LF] @ ''fgh''"] by simp

lemma lastIndexOf_nth:
  assumes "n < length s" "s ! n = c" "\<forall>j. n < j \<and> j < length s \<longrightarrow> s ! j \<noteq> c"
  shows "lastIndexOf s c = int n"
proof -
  have s: "s = take n s @ c # drop (Suc n) s"
    using assms(1,2) id_take_nth_drop by blast
  have "c \<notin> set (drop (Suc n) s)"
  proof
    assume "c \<in> set (drop (Suc n) s)"
    then obtain i where i: "i < length (drop (Suc n) s)" "drop (Suc n) s ! i = c"
      by (auto simp: in_set_conv_nth)
    then have "Suc n + i < length s" "s ! (Suc n + i) = c" by auto
    with assms(3) show False by auto
  qed
  then have "lastIndexOf (take n s @ c # drop (Suc n) s) c = int (length (take n s))"
    by (rule lastIndexOf_append_last)
  with s assms(1) show ?thesis by simp
qed

lemma LF_notin_marker: "LF \<notin> set marker"
  by (simp add: marker_def)

lemma take_sep_marker_1: "take (Suc 0) ([LF, LF] @ marker) = [LF]"
  by simp

lemma truncateDiff_raw_cut_fixed:
  assumes big: "m < int (length d)" and raw: "\<not> 4 * m < 5 * lastIndexOf (take (nat m) d) LF"
  shows "truncateDiff (take (nat m) d @ [LF, LF] @ marker) m = take (nat m) d @ [LF, LF] @ marker"
proof -
  let ?r = "take (nat m) d @ [LF, LF] @ marker"
  have len: "length (take (nat m) d) = nat m" using big by simp
  then have tk: "take (nat m) ?r = take (nat m) d" by simp
  have "m < int (length ?r)" using big by simp
  moreover have "\<not> 4 * m < 5 * lastIndexOf (take (nat m) ?r) LF" using raw tk by simp
  ultimately have "truncateDiff ?r m = take (nat m) ?r @ [LF, LF] @ marker"
    by (rule truncateDiff_raw_cut)
  with tk show ?thesis by simp
qed

lemma truncateDiff_negative:
  assumes "m < 0"
  shows "truncateDiff d m = [LF, LF] @ marker"
proof -
  have "lastIndexOf (take (nat m) d) LF = - 1" using assms by (simp add: lastIndexOf_def)
  then show ?thesis using assms
    by (simp add: truncateDiff_def substring_0 Let_def)
qed

lemma truncateDiff_newline_cut_again:
  assumes m0: "0 \<le> m" and big: "m < int (length d)"
    and n: "n = lastIndexOf (take (nat m) d) LF" and cut: "4 * m < 5 * n"
  shows "truncateDiff (take (nat n) d @ [LF, LF] @ marker) m = take (nat n) d @ [LF, LF] @ marker
         \<longleftrightarrow> \<not> (n + 2 \<le> m \<and> m < n + 26)"
proof -
  let ?k = "nat n"
  let ?r = "take ?k d @ [LF, LF] @ marker"
  have "n < int (length (take (nat m) d))" unfolding n by (rule lastIndexOf_less)
  then have nm: "n < m" using big m0 by simp
  have n1: "1 \<le> n" using cut m0 by linarith
  have lenk: "length (take ?k d) = ?k" using nm big by simp
  have lenr: "int (length ?r) = n + 26" using lenk n1 by (simp add: length_marker)
  show ?thesis
  proof (cases "n + 26 \<le> m")
    case True
    then have "truncateDiff ?r m = ?r" using lenr by (intro truncateDiff_fits) simp
    with True show ?thesis by simp
  next
    case False
    then have bigr: "m < int (length ?r)" using lenr by simp
    show ?thesis
    proof (cases "m = n + 1")
      case True
      then have "nat m = Suc ?k" using n1 by simp
      then have tk: "take (nat m) ?r = take ?k d @ [LF]" using lenk by simp
      have li: "lastIndexOf (take ?k d @ LF # []) LF = int (length (take ?k d))"
        by (rule lastIndexOf_append_last) simp
      then have li': "lastIndexOf (take (nat m) ?r) LF = n" using tk lenk n1 by simp
      then have "4 * m < 5 * lastIndexOf (take (nat m) ?r) LF" using cut by simp
      from truncateDiff_newline_cut [OF bigr this]
      have "truncateDiff ?r m = take ?k ?r @ [LF, LF] @ marker" by (simp only: li')
      then have "truncateDiff ?r m = ?r" using lenk by simp
      with True show ?thesis by simp
    next
      case False
      with nm have two: "n + 2 \<le> m" by simp
      define i where "i = nat (m - n - 2)"
      have i: "nat m = Suc (Suc (?k + i))" unfolding i_def using two n1 by linarith
      then have tk: "take (nat m) ?r = (take ?k d @ [LF]) @ LF # take i marker"
        using lenk by simp
      have "LF \<notin> set (take i marker)"
        using LF_notin_marker by (meson in_set_takeD)
      then have "lastIndexOf ((take ?k d @ [LF]) @ LF # take i marker) LF
          = int (length (take ?k d @ [LF]))"
        by (rule lastIndexOf_append_last)
      then have li': "lastIndexOf (take (nat m) ?r) LF = n + 1" using tk lenk n1 by simp
      then have "4 * m < 5 * lastIndexOf (take (nat m) ?r) LF" using cut by simp
      from truncateDiff_newline_cut [OF bigr this]
      have "truncateDiff ?r m = take (nat (n + 1)) ?r @ [LF, LF] @ marker"
        by (simp only: li')
      moreover have "nat (n + 1) = Suc ?k" using n1 by linarith
      ultimately have "truncateDiff ?r m = take (Suc ?k) ?r @ [LF, LF] @ marker"
        by (simp only:)
      then have "length (truncateDiff ?r m) = Suc (length ?r)" using lenk by simp
      then have "truncateDiff ?r m \<noteq> ?r" by auto
      with two \<open>\<not> n + 26 \<le> m\<close> show ?thesis by simp
    qed
  qed
qed

text \<open>
  Claim C2, as amended. A second \<open>truncateDiff\<close> with the same budget \<open>m\<close> gives the
  result of the first one exactly when the diff fits the budget, or the cut is at the
  budget itself, or the cut is at the last newline, of offset \<open>n\<close>, and \<open>n = m - 1\<close> or
  \<open>n + 26 \<le> m\<close>. In the remaining case, a cut at a newline with
  \<open>n + 2 \<le> m < n + 26\<close>, the second application finds the first newline of the
  separator within the budget and keeps it.
\<close>

theorem truncateDiff_twice:
  "truncateDiff (truncateDiff d m) m = truncateDiff d m \<longleftrightarrow>
     \<not> (m < int (length d) \<and>
        (let n = lastIndexOf (substring d 0 m) LF
         in 4 * m < 5 * n \<and> n + 2 \<le> m \<and> m < n + 26))"
proof (cases "m < int (length d)")
  case False
  then show ?thesis by (simp add: truncateDiff_fits)
next
  case big: True
  let ?n = "lastIndexOf (take (nat m) d) LF"
  show ?thesis
  proof (cases "m < 0")
    case True
    then have "?n = - 1" by (simp add: lastIndexOf_def)
    with True big show ?thesis by (simp add: truncateDiff_negative substring_0 Let_def)
  next
    case False
    then have m0: "0 \<le> m" by simp
    show ?thesis
    proof (cases "4 * m < 5 * ?n")
      case True
      have "truncateDiff d m = take (nat ?n) d @ [LF, LF] @ marker"
        using big True by (rule truncateDiff_newline_cut)
      moreover have "truncateDiff (take (nat ?n) d @ [LF, LF] @ marker) m
          = take (nat ?n) d @ [LF, LF] @ marker \<longleftrightarrow> \<not> (?n + 2 \<le> m \<and> m < ?n + 26)"
        using m0 big refl True by (rule truncateDiff_newline_cut_again)
      ultimately show ?thesis using big True by (simp add: substring_0 Let_def)
    next
      case False
      have "truncateDiff d m = take (nat m) d @ [LF, LF] @ marker"
        using big False by (rule truncateDiff_raw_cut)
      moreover have "truncateDiff (take (nat m) d @ [LF, LF] @ marker) m
          = take (nat m) d @ [LF, LF] @ marker"
        using big False by (rule truncateDiff_raw_cut_fixed)
      ultimately show ?thesis using False by (simp add: substring_0 Let_def)
    qed
  qed
qed

theorem truncateDiff_twice_witness:
  "truncateDiff (truncateDiff (''abcd'' @ [LF] @ ''fgh'') 5) 5 = truncateDiff (''abcd'' @ [LF] @ ''fgh'') 5"
  using truncateDiff_twice [of "''abcd'' @ [LF] @ ''fgh''" 5]
  by (simp add: substring_def lastIndexOf_def)

text \<open>
  The claim as stated fails: with a budget of 11 the diff below is cut at the newline
  of offset 9, and the second application cuts the result at offset 10.
\<close>

theorem truncateDiff_idempotent_counterexample:
  "truncateDiff (truncateDiff (''abcdefghi'' @ [LF] @ ''xyz'') 11) 11
     \<noteq> truncateDiff (''abcdefghi'' @ [LF] @ ''xyz'') 11"
  by (simp add: truncateDiff_def substring_def lastIndexOf_def marker_def)

text \<open>
  Claim C6, as amended. For a diff longer than the budget \<open>m\<close>: when the last newline
  among the first \<open>m\<close> characters is at an offset \<open>n\<close> strictly greater than
  \<open>0.8 * m\<close>, the result is the first \<open>n\<close> characters, two newlines and the marker;
  when that offset is \<open>0.8 * m\<close> or less, or there is no newline among the first \<open>m\<close>
  characters, the result is the first \<open>m\<close> characters, two newlines and the marker.
\<close>

theorem truncateDiff_cut_rule:
  assumes big: "m < int (length d)"
  shows "(\<forall>n. int n < m \<and> d ! n = LF \<and> (\<forall>j. n < j \<and> int j < m \<longrightarrow> d ! j \<noteq> LF) \<longrightarrow>
            truncateDiff d m =
              (if 4 * m < 5 * int n then take n d else take (nat m) d) @ [LF, LF] @ marker) \<and>
         ((\<forall>j. int j < m \<longrightarrow> d ! j \<noteq> LF) \<longrightarrow>
            truncateDiff d m = take (nat m) d @ [LF, LF] @ marker)"
proof (intro conjI allI impI)
  fix n
  assume h: "int n < m \<and> d ! n = LF \<and> (\<forall>j. n < j \<and> int j < m \<longrightarrow> d ! j \<noteq> LF)"
  let ?t = "take (nat m) d"
  have lent: "length ?t = nat m" using big by simp
  have nlt: "n < nat m" using h by linarith
  then have "n < length ?t" using lent by simp
  moreover have "?t ! n = LF" using h nlt by simp
  moreover have "\<forall>j. n < j \<and> j < length ?t \<longrightarrow> ?t ! j \<noteq> LF"
  proof (intro allI impI)
    fix j assume j: "n < j \<and> j < length ?t"
    then have "int j < m" using lent by linarith
    with h j show "?t ! j \<noteq> LF" by simp
  qed
  ultimately have li: "lastIndexOf ?t LF = int n" by (rule lastIndexOf_nth)
  show "truncateDiff d m =
      (if 4 * m < 5 * int n then take n d else take (nat m) d) @ [LF, LF] @ marker"
  proof (cases "4 * m < 5 * int n")
    case True
    then have "4 * m < 5 * lastIndexOf ?t LF" using li by simp
    from truncateDiff_newline_cut [OF big this] li True show ?thesis by simp
  next
    case False
    then have "\<not> 4 * m < 5 * lastIndexOf ?t LF" using li by simp
    from truncateDiff_raw_cut [OF big this] False show ?thesis by simp
  qed
next
  assume h: "\<forall>j. int j < m \<longrightarrow> d ! j \<noteq> LF"
  show "truncateDiff d m = take (nat m) d @ [LF, LF] @ marker"
  proof (cases "m < 0")
    case True
    then show ?thesis by (simp add: truncateDiff_negative)
  next
    case False
    have "LF \<notin> set (take (nat m) d)"
    proof
      assume "LF \<in> set (take (nat m) d)"
      then obtain j where "j < length (take (nat m) d)" "take (nat m) d ! j = LF"
        by (auto simp: in_set_conv_nth)
      then have "int j < m" "d ! j = LF" by auto
      with h show False by blast
    qed
    then have "lastIndexOf (take (nat m) d) LF = - 1" by (rule lastIndexOf_notin)
    then have "\<not> 4 * m < 5 * lastIndexOf (take (nat m) d) LF" using False by simp
    with big show ?thesis by (rule truncateDiff_raw_cut)
  qed
qed

theorem truncateDiff_cut_rule_witness:
  "(11::int) < int (length (''abcdefghi'' @ [LF] @ ''xyz'')) \<and>
   truncateDiff (''abcdefghi'' @ [LF] @ ''xyz'') 11 = ''abcdefghi'' @ [LF, LF] @ marker"
proof -
  let ?d = "''abcdefghi'' @ [LF] @ ''xyz''"
  have big: "(11::int) < int (length ?d)" by simp
  have last: "\<forall>j. 9 < j \<and> int j < 11 \<longrightarrow> ?d ! j \<noteq> LF"
  proof (intro allI impI)
    fix j :: nat assume "9 < j \<and> int j < 11"
    then have "j = 10" by linarith
    then show "?d ! j \<noteq> LF" by simp
  qed
  from truncateDiff_cut_rule [OF big] have
    "int 9 < 11 \<and> ?d ! 9 = LF \<and> (\<forall>j. 9 < j \<and> int j < 11 \<longrightarrow> ?d ! j \<noteq> LF) \<longrightarrow>
       truncateDiff ?d 11 =
         (if 4 * 11 < 5 * int 9 then take 9 ?d else take (nat 11) ?d) @ [LF, LF] @ marker"
    by blast
  with last have "truncateDiff ?d 11 = take 9 ?d @ [LF, LF] @ marker" by simp
  with big show ?thesis by simp
qed

text \<open>
  The claim as stated fails where the last newline is at exactly \<open>0.8 * m\<close>: with a
  budget of 5 and the newline at offset 4 the cut is at offset 5, not at the newline.
\<close>

theorem truncateDiff_boundary_counterexample:
  "(5::int) < int (length (''abcd'' @ [LF] @ ''fgh'')) \<and>
   lastIndexOf (substring (''abcd'' @ [LF] @ ''fgh'') 0 5) LF = 4 \<and>
   4 * (5::int) \<le> 5 * 4 \<and>
   truncateDiff (''abcd'' @ [LF] @ ''fgh'') 5 = ''abcd'' @ [LF] @ [LF, LF] @ marker \<and>
   truncateDiff (''abcd'' @ [LF] @ ''fgh'') 5 \<noteq> ''abcd'' @ [LF, LF] @ marker"
  by (simp add: truncateDiff_def substring_def lastIndexOf_def)

section \<open>Properties of the validator\<close>

lemma startsWith_append: "startsWith (p @ r) p"
  by (induction p) simp_all

lemma startsWith_decomp: "startsWith s p \<Longrightarrow> \<exists>r. s = p @ r"
  by (induction s p rule: startsWith.induct) auto

lemma matchScopeRest_close:
  assumes "\<forall>x\<in>set body. \<not> isLineTerminator x" "matchColonDesc rest"
  shows "matchScopeRest (body @ CHR '')'' # rest)"
  using assms by (induction body) simp_all

lemma matchScopeRest_decomp:
  "matchScopeRest s \<Longrightarrow>
     \<exists>body rest. s = body @ CHR '')'' # rest \<and> (\<forall>x\<in>set body. \<not> isLineTerminator x) \<and>
       matchColonDesc rest"
proof (induction s)
  case Nil
  then show ?case by simp
next
  case (Cons x xs)
  show ?case
  proof (cases "x = CHR '')'' \<and> matchColonDesc xs")
    case True
    then have "x # xs = [] @ CHR '')'' # xs \<and> (\<forall>x\<in>set []. \<not> isLineTerminator x) \<and> matchColonDesc xs"
      by simp
    then show ?thesis by blast
  next
    case False
    with Cons.prems have x: "\<not> isLineTerminator x" and "matchScopeRest xs" by auto
    with Cons.IH obtain body rest where
      "xs = body @ CHR '')'' # rest" "\<forall>x\<in>set body. \<not> isLineTerminator x" "matchColonDesc rest"
      by blast
    with x have "x # xs = (x # body) @ CHR '')'' # rest \<and>
        (\<forall>y\<in>set (x # body). \<not> isLineTerminator y) \<and> matchColonDesc rest"
      by simp
    then show ?thesis by blast
  qed
qed

lemma matchColonDesc_iff:
  "matchColonDesc s \<longleftrightarrow> (\<exists>c rest. s = '': '' @ c # rest \<and> \<not> isLineTerminator c)"
  by (cases s rule: matchColonDesc.cases) auto

lemma conventionalRegex_shape:
  assumes t: "t \<in> set commitTypes"
    and scope: "scope = [] \<or> (\<exists>body. scope = ''('' @ body @ '')'' \<and> body \<noteq> [] \<and>
                  (\<forall>x\<in>set body. \<not> isLineTerminator x))"
    and c: "\<not> isLineTerminator c"
  shows "conventionalRegex (t @ scope @ '': '' @ c # rest)"
proof -
  let ?r = "scope @ '': '' @ c # rest"
  have tail: "matchColonDesc ('': '' @ c # rest)" using c by simp
  have "matchScope ?r \<or> matchColonDesc ?r"
  proof (cases "scope = []")
    case True
    then show ?thesis using tail by simp
  next
    case False
    with scope obtain body where body: "scope = ''('' @ body @ '')''" "body \<noteq> []"
      "\<forall>x\<in>set body. \<not> isLineTerminator x" by blast
    then obtain b bs where bs: "body = b # bs" by (cases body) auto
    have "matchScopeRest (bs @ CHR '')'' # ('': '' @ c # rest))"
      using body(3) bs tail by (intro matchScopeRest_close) auto
    then have "matchScope ?r" using body bs by simp
    then show ?thesis ..
  qed
  then have "startsWith (t @ ?r) t \<and>
      (let r = drop (length t) (t @ ?r) in matchScope r \<or> matchColonDesc r)"
    by (simp add: startsWith_append)
  with t show ?thesis unfolding conventionalRegex_def list_ex_iff by blast
qed

lemma conventionalRegex_decomp:
  assumes "conventionalRegex firstLine"
  shows "\<exists>t scope c rest. firstLine = t @ scope @ '': '' @ c # rest \<and> t \<in> set commitTypes \<and>
           (scope = [] \<or> (\<exists>body. scope = ''('' @ body @ '')'' \<and> body \<noteq> [] \<and>
               (\<forall>x\<in>set body. \<not> isLineTerminator x))) \<and> \<not> isLineTerminator c"
proof -
  from assms obtain t where t: "t \<in> set commitTypes" "startsWith firstLine t"
    and m: "matchScope (drop (length t) firstLine) \<or> matchColonDesc (drop (length t) firstLine)"
    unfolding conventionalRegex_def list_ex_iff Let_def by blast
  from t(2) obtain r where r: "firstLine = t @ r" using startsWith_decomp by blast
  with m have "matchScope r \<or> matchColonDesc r" by simp
  then show ?thesis
  proof
    assume "matchColonDesc r"
    then obtain c rest where "r = '': '' @ c # rest" "\<not> isLineTerminator c"
      unfolding matchColonDesc_iff by blast
    with r t(1) have "firstLine = t @ [] @ '': '' @ c # rest \<and> t \<in> set commitTypes \<and>
        \<not> isLineTerminator c" by simp
    then show ?thesis by blast
  next
    assume "matchScope r"
    then obtain b r' where r': "r = CHR ''('' # b # r'" "\<not> isLineTerminator b" "matchScopeRest r'"
      by (cases r rule: matchScope.cases) auto
    from matchScopeRest_decomp [OF r'(3)] obtain body tl where
      b: "r' = body @ CHR '')'' # tl" "\<forall>x\<in>set body. \<not> isLineTerminator x" "matchColonDesc tl"
      by blast
    from b(3) obtain c rest where c: "tl = '': '' @ c # rest" "\<not> isLineTerminator c"
      unfolding matchColonDesc_iff by blast
    let ?scope = "''('' @ (b # body) @ '')''"
    have "firstLine = t @ ?scope @ '': '' @ c # rest" using r r'(1) b(1) c(1) by simp
    moreover have "\<exists>bd. ?scope = ''('' @ bd @ '')'' \<and> bd \<noteq> [] \<and> (\<forall>x\<in>set bd. \<not> isLineTerminator x)"
      using r'(2) b(2) by (intro exI [of _ "b # body"]) simp
    ultimately show ?thesis using t(1) c(2) by blast
  qed
qed

lemma validateMessage_errors:
  "errors (validateMessage msg fmt) =
     (if length (hd (split msg LF)) > 72
      then [''First line is too long (over 72 characters)''] else []) @
     (if fmt = ''conventional'' \<and> \<not> conventionalRegex (hd (split msg LF))
      then [''First line does not follow conventional commit format''] else [])"
  by (simp add: validateMessage_def Let_def)

lemma validateMessage_valid:
  "valid (validateMessage msg fmt) \<longleftrightarrow>
     \<not> length (hd (split msg LF)) > 72 \<and>
     \<not> (fmt = ''conventional'' \<and> \<not> conventionalRegex (hd (split msg LF)))"
  by (simp add: validateMessage_def Let_def)

text \<open>
  Claim C4. For every message and format the result of \<open>validateMessage\<close> has
  \<open>valid\<close> false exactly when \<open>errors\<close> is not empty; and \<open>valid\<close> is a function of
  \<open>errors\<close> alone: two results with the same errors have the same \<open>valid\<close>, whatever
  their warnings are.
\<close>

theorem validateMessage_valid_iff:
  "(valid (validateMessage msg fmt) \<longleftrightarrow> errors (validateMessage msg fmt) = []) \<and>
   (\<forall>msg2 fmt2.
      errors (validateMessage msg2 fmt2) = errors (validateMessage msg fmt) \<longrightarrow>
      valid (validateMessage msg2 fmt2) = valid (validateMessage msg fmt))"
proof -
  have iff: "valid (validateMessage m f) \<longleftrightarrow> errors (validateMessage m f) = []" for m f
    unfolding validateMessage_errors validateMessage_valid by simp
  show ?thesis using iff by simp
qed


theorem validateMessage_valid_iff_witness:
  "errors (validateMessage ''feat: added x'' ''conventional'')
     = errors (validateMessage ''feat: add x'' ''conventional'') \<and>
   warnings (validateMessage ''feat: added x'' ''conventional'')
     \<noteq> warnings (validateMessage ''feat: add x'' ''conventional'') \<and>
   valid (validateMessage ''feat: added x'' ''conventional'')
     = valid (validateMessage ''feat: add x'' ''conventional'')"
proof -
  have e: "errors (validateMessage ''feat: added x'' ''conventional'')
      = errors (validateMessage ''feat: add x'' ''conventional'')"
    by code_simp
  have w: "warnings (validateMessage ''feat: added x'' ''conventional'')
      \<noteq> warnings (validateMessage ''feat: add x'' ''conventional'')"
    by code_simp
  from validateMessage_valid_iff [of "''feat: add x''" "''conventional''"] e
  have "valid (validateMessage ''feat: added x'' ''conventional'')
      = valid (validateMessage ''feat: add x'' ''conventional'')"
    by blast
  with e w show ?thesis by blast
qed

text \<open>
  Claim C5. A message whose first line is longer than 72 characters is not valid. A
  message whose first line has at most 50 characters and, when the format is
  \<open>conventional\<close>, is a type of the fixed set, an optional scope in parentheses, a
  colon, a space and a description of at least one character, has no error at all,
  so none about the length and none about the format.
\<close>

theorem validateMessage_monotone:
  "(length (hd (split msg LF)) > 72 \<longrightarrow> \<not> valid (validateMessage msg fmt)) \<and>
   (length (hd (split msg LF)) \<le> 50 \<and>
    (fmt = ''conventional'' \<longrightarrow>
       (\<exists>t scope c rest. hd (split msg LF) = t @ scope @ '': '' @ c # rest \<and>
          t \<in> set commitTypes \<and>
          (scope = [] \<or> (\<exists>body. scope = ''('' @ body @ '')'' \<and> body \<noteq> [] \<and>
              (\<forall>x\<in>set body. \<not> isLineTerminator x))) \<and>
          \<not> isLineTerminator c)) \<longrightarrow>
    errors (validateMessage msg fmt) = [])"
proof (intro conjI impI)
  assume "length (hd (split msg LF)) > 72"
  then show "\<not> valid (validateMessage msg fmt)" by (simp add: validateMessage_valid)
next
  assume h: "length (hd (split msg LF)) \<le> 50 \<and>
    (fmt = ''conventional'' \<longrightarrow>
       (\<exists>t scope c rest. hd (split msg LF) = t @ scope @ '': '' @ c # rest \<and>
          t \<in> set commitTypes \<and>
          (scope = [] \<or> (\<exists>body. scope = ''('' @ body @ '')'' \<and> body \<noteq> [] \<and>
              (\<forall>x\<in>set body. \<not> isLineTerminator x))) \<and>
          \<not> isLineTerminator c))"
  have "conventionalRegex (hd (split msg LF))" if "fmt = ''conventional''"
  proof -
    from h that obtain t scope c rest where
      "hd (split msg LF) = t @ scope @ '': '' @ c # rest" "t \<in> set commitTypes"
      "scope = [] \<or> (\<exists>body. scope = ''('' @ body @ '')'' \<and> body \<noteq> [] \<and>
          (\<forall>x\<in>set body. \<not> isLineTerminator x))"
      "\<not> isLineTerminator c" by blast
    then show ?thesis using conventionalRegex_shape by metis
  qed
  with h show "errors (validateMessage msg fmt) = []" by (auto simp: validateMessage_errors)
qed

theorem validateMessage_monotone_witness:
  "errors (validateMessage ''feat(auth): add OAuth2 integration'' ''conventional'') = [] \<and>
   \<not> valid (validateMessage
      ''feat: this subject line is far too long to be accepted by the validator of messages''
      ''conventional'')"
proof -
  let ?m = "''feat(auth): add OAuth2 integration''"
  have hd: "hd (split ?m LF) = ''feat'' @ ''(auth)'' @ '': '' @ CHR ''a'' # ''dd OAuth2 integration''"
    by simp
  have shape: "\<exists>t scope c rest. hd (split ?m LF) = t @ scope @ '': '' @ c # rest \<and>
          t \<in> set commitTypes \<and>
          (scope = [] \<or> (\<exists>body. scope = ''('' @ body @ '')'' \<and> body \<noteq> [] \<and>
              (\<forall>x\<in>set body. \<not> isLineTerminator x))) \<and>
          \<not> isLineTerminator c"
  proof (intro exI conjI)
    show "hd (split ?m LF) = ''feat'' @ ''(auth)'' @ '': '' @ CHR ''a'' # ''dd OAuth2 integration''"
      by (rule hd)
    show "''feat'' \<in> set commitTypes" by (simp add: commitTypes_def)
    show "''(auth)'' = [] \<or> (\<exists>body. ''(auth)'' = ''('' @ body @ '')'' \<and> body \<noteq> [] \<and>
              (\<forall>x\<in>set body. \<not> isLineTerminator x))"
      by (intro disjI2 exI [of _ "''auth''"]) (simp add: isLineTerminator_def)
    show "\<not> isLineTerminator (CHR ''a'')" by (simp add: isLineTerminator_def)
  qed
  have short: "length (hd (split ?m LF)) \<le> 50" by simp
  have a: "errors (validateMessage ?m ''conventional'') = []"
    using validateMessage_monotone [of ?m "''conventional''"] short shape by blast
  let ?l = "''feat: this subject line is far too long to be accepted by the validator of messages''"
  have "length (hd (split ?l LF)) > 72" by simp
  then have b: "\<not> valid (validateMessage ?l ''conventional'')"
    using validateMessage_monotone [of ?l "''conventional''"] by blast
  from a b show ?thesis by blast
qed

section \<open>Properties of the prompt builder\<close>

lemma showInt_50: "showInt 50 = ''50''"
  by code_simp

text \<open>
  Claim C9. For the status with \<open>a.ts\<close> added and nothing else, the diff
  \<open>+export function f(){}\<close> and the options \<open>{format: 'conventional', maxLength: 50}\<close>,
  the prompt has the line \<open>- Added: a.ts\<close> and the instruction line that names
  \<open>50 characters\<close>. The fields \<open>conflicted\<close> and \<open>hasChanges\<close> of the status, which
  the builder does not read, are arbitrary.
\<close>

theorem buildPrompt_scenario:
  "''- Added: a.ts'' \<in> set (split (buildPrompt
       \<lparr>status = \<lparr>added = [''a.ts''], modified = [], deleted = [], untracked = [],
                  conflicted = c, hasChanges = h\<rparr>,
        diff = ''+export function f(){}''\<rparr>
       \<lparr>format = Some ''conventional'', maxLength = Some 50, maxDiffLength = None\<rparr>) LF) \<and>
   ''- Keep the first line under 50 characters'' \<in> set (split (buildPrompt
       \<lparr>status = \<lparr>added = [''a.ts''], modified = [], deleted = [], untracked = [],
                  conflicted = c, hasChanges = h\<rparr>,
        diff = ''+export function f(){}''\<rparr>
       \<lparr>format = Some ''conventional'', maxLength = Some 50, maxDiffLength = None\<rparr>) LF)"
  by (simp add: buildPrompt_def truncateDiff_def orDefault_def showInt_50)

section \<open>Properties of the generator\<close>

lemma generateCommitMessage_no_changes:
  assumes "getDiffSummary git = Inr diffSummary" "\<not> hasChanges (status diffSummary)"
  shows "generateCommitMessage git agent opts calls =
           (Inl (Error ''No changes detected in repository''), calls)"
  using assms by (simp add: generateCommitMessage_def)

text \<open>
  Claim C3. When the summary that the generator obtains has a status without changes,
  \<open>generateCommitMessage\<close> fails with the error \<open>No changes detected in repository\<close>
  and the list of prompts given to the backend is as it was: the backend is not called.
\<close>

theorem generateCommitMessage_empty_status:
  assumes "getDiffSummary git = Inr diffSummary" "\<not> hasChanges (status diffSummary)"
  shows "generateCommitMessage git agent opts calls =
           (Inl (Error ''No changes detected in repository''), calls)"
  using assms by (rule generateCommitMessage_no_changes)

lemma getDiffSummary_clean:
  "getDiffSummary \<lparr>git_status = Inr \<lparr>staged = [], sg_modified = [], sg_deleted = [],
       not_added = [], sg_conflicted = cs\<rparr>, git_diff_cached = Inr [], git_diff = Inr []\<rparr> =
     Inr \<lparr>status = \<lparr>added = [], modified = [], deleted = [], untracked = [],
            conflicted = cs, hasChanges = False\<rparr>,
          diff = [], summary = ''Git Status:'' @ [LF, LF] @ ''Changes:'' @ [LF]\<rparr>"
  by (simp add: getDiffSummary_def getStatus_def getDiff_def createSummary_def trim_def)

theorem generateCommitMessage_empty_status_witness:
  "generateCommitMessage
     \<lparr>git_status = Inr \<lparr>staged = [], sg_modified = [], sg_deleted = [], not_added = [],
        sg_conflicted = []\<rparr>, git_diff_cached = Inr [], git_diff = Inr []\<rparr>
     (\<lambda>prompt. Inr ''feat: add f'') \<lparr>format = None, maxLength = None, maxDiffLength = None\<rparr> []
   = (Inl (Error ''No changes detected in repository''), [])"
  by (rule generateCommitMessage_empty_status [OF getDiffSummary_clean]) simp

text \<open>
  Claim C10. When \<open>staged\<close>, \<open>modified\<close>, \<open>deleted\<close> and \<open>not_added\<close> are all empty,
  \<open>hasChanges()\<close> is false whatever \<open>conflicted\<close> holds, and the snapshot still lists
  the conflicted files; \<open>generateCommitMessage\<close> then fails with the error
  \<open>No changes detected in repository\<close> once the diff has been read, and the backend is
  not called.
\<close>

theorem conflicted_only_is_no_changes:
  assumes st: "git_status git = Inr st"
    and empty: "staged st = []" "sg_modified st = []" "sg_deleted st = []" "not_added st = []"
  shows "(\<exists>gs. getStatus git = Inr gs \<and> conflicted gs = sg_conflicted st \<and> \<not> hasChanges gs) \<and>
         (\<forall>d. getDiff git = Inr d \<longrightarrow>
            generateCommitMessage git agent opts calls =
              (Inl (Error ''No changes detected in repository''), calls))"
proof (intro conjI allI impI)
  show "\<exists>gs. getStatus git = Inr gs \<and> conflicted gs = sg_conflicted st \<and> \<not> hasChanges gs"
    using st empty by (simp add: getStatus_def)
next
  fix d assume d: "getDiff git = Inr d"
  obtain gs where gs: "getStatus git = Inr gs" "\<not> hasChanges gs"
    using st empty by (simp add: getStatus_def)
  let ?ds = "\<lparr>status = gs, diff = d, summary = createSummary gs d\<rparr>"
  have ds: "getDiffSummary git = Inr ?ds"
    using gs(1) d by (simp add: getDiffSummary_def)
  have nc: "\<not> hasChanges (status ?ds)" using gs(2) by simp
  from ds nc show "generateCommitMessage git agent opts calls =
      (Inl (Error ''No changes detected in repository''), calls)"
    by (rule generateCommitMessage_no_changes)
qed

theorem conflicted_only_is_no_changes_witness:
  "generateCommitMessage
     \<lparr>git_status = Inr \<lparr>staged = [], sg_modified = [], sg_deleted = [], not_added = [],
        sg_conflicted = [''a.ts'']\<rparr>, git_diff_cached = Inr [], git_diff = Inr []\<rparr>
     (\<lambda>prompt. Inr ''feat: add f'') \<lparr>format = None, maxLength = None, maxDiffLength = None\<rparr> []
   = (Inl (Error ''No changes detected in repository''), [])"
proof -
  let ?st = "\<lparr>staged = [], sg_modified = [], sg_deleted = [], not_added = [],
        sg_conflicted = [''a.ts'']\<rparr>"
  let ?git = "\<lparr>git_status = Inr ?st, git_diff_cached = Inr [], git_diff = Inr []\<rparr>"
  have d: "getDiff ?git = Inr []" by (simp add: getDiff_def trim_def)
  from conflicted_only_is_no_changes [of ?git ?st] d show ?thesis by simp
qed

section \<open>Properties of the suggestion engine\<close>

lemma getSuggestions_info:
  assumes api: "''export'' \<in> set (diff diffSummary) \<or> ''public'' \<in> set (diff diffSummary)"
    and docs: "\<not> list_ex (\<lambda>file. list_ex (endsWith (map foldCase file)) docExtensions \<or>
                  includesStr (toLowerCase file) ''readme'')
               (added (status diffSummary) @ modified (status diffSummary))"
  shows "\<lparr>type = ''info'', message = ''Consider updating documentation for API changes''\<rparr>
           \<in> set (getSuggestions msg diffSummary)"
  using assms by (simp add: getSuggestions_def Let_def)

text \<open>
  Claim C8 asks for a suggestion of type \<open>info\<close> whenever the diff text contains
  \<open>export\<close> or \<open>public\<close> and no added or modified path is a documentation file. The
  source declares \<open>diff: string[]\<close>, so its test \<open>diff.includes('export')\<close> is on the
  elements of the array. For the array of the one line \<open>+export function f(){}\<close>, with
  \<open>a.ts\<close> added, the test is false and the only suggestion is the warning about tests.
\<close>

theorem getSuggestions_export_line:
  "getSuggestions ''feat: add f''
     \<lparr>status = \<lparr>added = [''a.ts''], modified = [], deleted = [], untracked = [],
                conflicted = [], hasChanges = True\<rparr>,
      diff = [''+export function f(){}'']\<rparr>
   = [\<lparr>type = ''warning'', message = ''Consider adding tests for your code changes''\<rparr>]"
  by code_simp

section \<open>Properties of the post-processor\<close>

lemma split_not_Nil: "split s c \<noteq> []"
  by (induction s) (auto split: list.splits)

lemma hd_split: "hd (split s c) = takeWhile (\<lambda>x. x \<noteq> c) s"
  by (induction s) (auto simp: split_not_Nil split: list.splits)

lemma join_Cons:
  "join (l # ls) [LF] = l @ (if ls = [] then [] else LF # join ls [LF])"
  by (cases ls) simp_all

lemma set_substring: "set (substring s a b) \<subseteq> set s"
  unfolding substring_def Let_def by (meson set_take_subset set_drop_subset subset_trans)

lemma length_substring_0: "0 \<le> e \<Longrightarrow> int (length (substring s 0 e)) \<le> e"
  by (simp add: substring_0)

lemma set_trim: "set (trim s) \<subseteq> set s"
proof -
  have "set (trim s) \<subseteq> set (dropWhile isWhiteSpace s)"
    unfolding trim_def using set_dropWhileD by fastforce
  also have "\<dots> \<subseteq> set s" using set_dropWhileD by fastforce
  finally show ?thesis .
qed

lemma length_trim: "length (trim s) \<le> length s"
proof -
  have "length (trim s) \<le> length (dropWhile isWhiteSpace s)"
    unfolding trim_def using length_dropWhile_le [of isWhiteSpace "rev (dropWhile isWhiteSpace s)"]
    by simp
  also have "\<dots> \<le> length s" by (rule length_dropWhile_le)
  finally show ?thesis .
qed

lemma dropWhile_keeps: "x \<in> set s \<Longrightarrow> \<not> P x \<Longrightarrow> x \<in> set (dropWhile P s)"
  by (induction s) auto

lemma trim_keeps: "x \<in> set s \<Longrightarrow> \<not> isWhiteSpace x \<Longrightarrow> x \<in> set (trim s)"
  unfolding trim_def by (simp add: dropWhile_keeps)

lemma trim_prefix: "\<exists>k. trim s = take k (dropWhile isWhiteSpace s)"
proof -
  let ?u = "dropWhile isWhiteSpace s"
  have "rev ?u = takeWhile isWhiteSpace (rev ?u) @ dropWhile isWhiteSpace (rev ?u)" by simp
  then have "?u = rev (dropWhile isWhiteSpace (rev ?u)) @ rev (takeWhile isWhiteSpace (rev ?u))"
    by (metis rev_append rev_rev_ident)
  then have "?u = trim s @ rev (takeWhile isWhiteSpace (rev ?u))" by (simp add: trim_def)
  then have "take (length (trim s)) ?u = trim s" by (metis append_eq_conv_conj)
  then show ?thesis by metis
qed

lemma length_takeWhile_take:
  "length (takeWhile P (take k xs)) \<le> length (takeWhile P xs)"
proof (induction xs arbitrary: k)
  case Nil
  then show ?case by simp
next
  case (Cons x xs)
  then show ?case by (cases k) auto
qed

lemma first_line_trim:
  assumes nonblank: "\<exists>c\<in>set l. \<not> isWhiteSpace c" and noLF: "LF \<notin> set l"
    and tail: "tail = [] \<or> hd tail = LF"
  shows "length (takeWhile (\<lambda>x. x \<noteq> LF) (trim (l @ tail))) \<le> length l"
proof -
  from nonblank obtain c where c: "c \<in> set l" "\<not> isWhiteSpace c" by blast
  then have dw: "dropWhile isWhiteSpace (l @ tail) = dropWhile isWhiteSpace l @ tail"
    by (intro dropWhile_append1)
  let ?l = "dropWhile isWhiteSpace l"
  have noLF': "LF \<notin> set ?l" using noLF set_dropWhileD by fastforce
  have tw: "takeWhile (\<lambda>x. x \<noteq> LF) (?l @ tail) = ?l"
  proof (cases tail)
    case Nil
    then show ?thesis using noLF' by (auto simp: takeWhile_eq_all_conv)
  next
    case (Cons t ts)
    with tail have "t = LF" by simp
    with Cons show ?thesis using noLF' by (auto simp: takeWhile_tail takeWhile_eq_all_conv)
  qed
  obtain k where k: "trim (l @ tail) = take k (?l @ tail)" using trim_prefix dw by metis
  have "length (takeWhile (\<lambda>x. x \<noteq> LF) (trim (l @ tail)))
      \<le> length (takeWhile (\<lambda>x. x \<noteq> LF) (?l @ tail))"
    unfolding k by (rule length_takeWhile_take)
  also have "\<dots> = length ?l" using tw by simp
  also have "\<dots> \<le> length l" by (rule length_dropWhile_le)
  finally show ?thesis .
qed

lemma takeWhile_neq_nth:
  "c \<in> set s \<Longrightarrow> length (takeWhile (\<lambda>x. x \<noteq> c) s) < length s \<and>
     s ! length (takeWhile (\<lambda>x. x \<noteq> c) s) = c"
  by (induction s) auto

lemma indexOf_nth:
  assumes "0 \<le> indexOf s c"
  shows "nat (indexOf s c) < length s \<and> s ! nat (indexOf s c) = c"
proof -
  from assms have c: "c \<in> set s" by (auto simp: indexOf_def split: if_splits)
  then have i: "indexOf s c = int (length (takeWhile (\<lambda>x. x \<noteq> c) s))" by (simp add: indexOf_def)
  with takeWhile_neq_nth [OF c] show ?thesis by simp
qed


lemma not_isWhiteSpace_colon: "\<not> isWhiteSpace (CHR '':'')"
  by (simp add: isWhiteSpace_def)

lemma ensureFirstLine_hd:
  assumes noLF: "LF \<notin> set l0"
    and nonblank: "\<exists>c\<in>set (take (nat m) l0). \<not> isWhiteSpace c"
    and path: "int (length l0) \<le> m \<or>
               \<not> (0 < indexOf l0 (CHR '':'') \<and> indexOf l0 (CHR '':'') < m) \<or>
               (indexOf l0 (CHR '':'') + 1 < m \<and>
                m - indexOf l0 (CHR '':'') - 2
                  < int (length (trim (substringFrom l0 (indexOf l0 (CHR '':'') + 1)))))"
  shows "\<exists>new0. ensureFirstLine (l0 # rest) m = new0 # rest \<and> int (length new0) \<le> m \<and>
           LF \<notin> set new0 \<and> (\<exists>c\<in>set new0. \<not> isWhiteSpace c)"
proof (cases "int (length l0) \<le> m")
  case True
  have "\<exists>c\<in>set l0. \<not> isWhiteSpace c" using nonblank by (meson in_set_takeD)
  with True noLF show ?thesis by (simp add: ensureFirstLine_def)
next
  case long: False
  from nonblank have "take (nat m) l0 \<noteq> []" by auto
  then have mpos: "0 < m" by (cases "0 < m") auto
  let ?ci = "indexOf l0 (CHR '':'')"
  show ?thesis
  proof (cases "0 < ?ci \<and> ?ci < m")
    case colon: True
    with long path have room: "?ci + 1 < m"
      and desc: "m - ?ci - 2 < int (length (trim (substringFrom l0 (?ci + 1))))" by auto
    let ?prefix = "substring l0 0 (?ci + 1)"
    let ?description = "trim (substringFrom l0 (?ci + 1))"
    let ?new = "?prefix @ '' '' @ trim (substring ?description 0 (m - int (length ?prefix) - 1))"
    from colon indexOf_nth [of l0 "CHR '':''"]
    have ci: "nat ?ci < length l0" "l0 ! nat ?ci = CHR '':''" by auto
    have prefix: "?prefix = take (Suc (nat ?ci)) l0"
      using colon by (simp add: substring_0 nat_add_distrib)
    have lenp: "int (length ?prefix) = ?ci + 1" using ci(1) colon by (simp add: prefix)
    have eq: "ensureFirstLine (l0 # rest) m = ?new # rest"
      using long colon desc lenp by (simp add: ensureFirstLine_def Let_def)
    have "length (trim (substring ?description 0 (m - int (length ?prefix) - 1)))
        \<le> length (substring ?description 0 (m - int (length ?prefix) - 1))"
      by (rule length_trim)
    also have "int \<dots> \<le> m - int (length ?prefix) - 1"
      using room lenp by (intro length_substring_0) simp
    finally have len: "int (length ?new) \<le> m" by simp
    have "set (trim (substring ?description 0 (m - int (length ?prefix) - 1))) \<subseteq> set l0"
      using set_trim set_substring unfolding substringFrom_def by (meson subset_trans)
    moreover have "set ?prefix \<subseteq> set l0" by (rule set_substring)
    ultimately have nolf: "LF \<notin> set ?new" using noLF by auto
    have "?prefix ! nat ?ci = CHR '':''" using ci by (simp add: prefix)
    moreover have "nat ?ci < length ?prefix" using ci by (simp add: prefix)
    ultimately have "CHR '':'' \<in> set ?prefix" by (metis nth_mem)
    then have "\<exists>c\<in>set ?new. \<not> isWhiteSpace c" using not_isWhiteSpace_colon by auto
    with eq len nolf show ?thesis by blast
  next
    case plain: False
    let ?new = "trim (substring l0 0 m)"
    have eq: "ensureFirstLine (l0 # rest) m = ?new # rest"
      using long plain by (auto simp: ensureFirstLine_def Let_def)
    have "length ?new \<le> length (substring l0 0 m)" by (rule length_trim)
    also have "int \<dots> \<le> m" using mpos by (intro length_substring_0) simp
    finally have len: "int (length ?new) \<le> m" by simp
    have "set ?new \<subseteq> set l0" using set_trim set_substring by (meson subset_trans)
    then have nolf: "LF \<notin> set ?new" using noLF by auto
    from nonblank obtain c where "c \<in> set (substring l0 0 m)" "\<not> isWhiteSpace c"
      by (auto simp: substring_0)
    then have "\<exists>c\<in>set ?new. \<not> isWhiteSpace c" using trim_keeps by blast
    with eq len nolf show ?thesis by blast
  qed
qed

text \<open>
  Claim C1, as amended. Let \<open>m\<close> be the budget in force, \<open>options.maxLength || 50\<close>
  (so 50 when \<open>maxLength\<close> is absent or 0), and let the subject line be the first line
  of the cleaned text. If the first \<open>m\<close> characters of the subject line hold a character
  that is not white space, and the subject line has at most \<open>m\<close> characters, or has no
  colon at an offset from 1 to \<open>m - 1\<close>, or has its first colon at an offset \<open>k\<close> with
  \<open>k + 1 < m\<close> and a trimmed description of more than \<open>m - k - 2\<close> characters, then the
  first line of the result has at most \<open>m\<close> characters.
\<close>

theorem postProcessMessage_first_line:
  assumes m: "m = orDefault (maxLength opts) 50"
    and l0: "firstLine = hd (split (cleanupSpaces (removeMarkdown (trim msg))) LF)"
    and nonblank: "\<exists>c\<in>set (take (nat m) firstLine). \<not> isWhiteSpace c"
    and path: "int (length firstLine) \<le> m \<or>
               \<not> (0 < indexOf firstLine (CHR '':'') \<and> indexOf firstLine (CHR '':'') < m) \<or>
               (indexOf firstLine (CHR '':'') + 1 < m \<and>
                m - indexOf firstLine (CHR '':'') - 2
                  < int (length (trim (substringFrom firstLine (indexOf firstLine (CHR '':'') + 1)))))"
  shows "int (length (hd (split (postProcessMessage msg opts) LF))) \<le> m"
proof -
  let ?lines = "split (cleanupSpaces (removeMarkdown (trim msg))) LF"
  obtain rest where lines: "?lines = firstLine # rest"
    using l0 split_not_Nil by (metis list.collapse)
  have "firstLine = takeWhile (\<lambda>x. x \<noteq> LF) (cleanupSpaces (removeMarkdown (trim msg)))"
    using l0 by (simp add: hd_split)
  then have noLF: "LF \<notin> set firstLine" by (metis (mono_tags, lifting) set_takeWhileD)
  from ensureFirstLine_hd [OF noLF nonblank path] obtain new0 where
    new0: "ensureFirstLine (firstLine # rest) m = new0 # rest" "int (length new0) \<le> m"
      "LF \<notin> set new0" "\<exists>c\<in>set new0. \<not> isWhiteSpace c" by blast
  let ?tail = "if rest = [] then [] else LF # join rest [LF]"
  have "postProcessMessage msg opts = trim (new0 @ ?tail)"
    using lines new0(1) m by (simp add: postProcessMessage_def Let_def join_Cons)
  then have "length (hd (split (postProcessMessage msg opts) LF))
      = length (takeWhile (\<lambda>x. x \<noteq> LF) (trim (new0 @ ?tail)))"
    by (simp add: hd_split)
  also have "\<dots> \<le> length new0"
    using new0(4) new0(3) by (rule first_line_trim) simp
  finally show ?thesis using new0(2) by simp
qed


theorem postProcessMessage_first_line_witness:
  "int (length (hd (split (postProcessMessage
      ''feat: add a very long description that exceeds the fifty character budget by a lot''
      \<lparr>format = None, maxLength = Some 50, maxDiffLength = None\<rparr>) LF))) \<le> 50"
proof -
  let ?raw = "''feat: add a very long description that exceeds the fifty character budget by a lot''"
  let ?opts = "\<lparr>format = None, maxLength = Some 50, maxDiffLength = None\<rparr>"
  have m: "(50::int) = orDefault (maxLength ?opts) 50" by (simp add: orDefault_def)
  have l0: "?raw = hd (split (cleanupSpaces (removeMarkdown (trim ?raw))) LF)" by code_simp
  have nonblank: "\<exists>c\<in>set (take (nat 50) ?raw). \<not> isWhiteSpace c"
    by (intro bexI [of _ "CHR ''f''"]) (simp_all add: isWhiteSpace_def)
  have ci: "indexOf ?raw (CHR '':'') = 4" by code_simp
  have "(44::int) < int (length (trim (substringFrom ?raw 5)))" by code_simp
  then have path: "int (length ?raw) \<le> 50 \<or>
      \<not> (0 < indexOf ?raw (CHR '':'') \<and> indexOf ?raw (CHR '':'') < 50) \<or>
      (indexOf ?raw (CHR '':'') + 1 < 50 \<and>
       50 - indexOf ?raw (CHR '':'') - 2
         < int (length (trim (substringFrom ?raw (indexOf ?raw (CHR '':'') + 1)))))"
    unfolding ci by simp
  from postProcessMessage_first_line [OF m l0 nonblank path] show ?thesis .
qed

text \<open>
  The claim as stated fails. With \<open>maxLength\<close> 0 the budget in force is 50 and the
  message \<open>ab\<close> is returned as it is, two characters long. With \<open>maxLength\<close> 5 and
  the message \<open>feat:abc\<close> followed by a body line, the colon is at offset 4, the
  description is cut to nothing and the subject line becomes \<open>feat: \<close>, six characters
  long, which the final \<open>trim\<close> leaves alone because the body follows.
\<close>

theorem postProcessMessage_budget_counterexample:
  "\<not> int (length (hd (split (postProcessMessage ''ab''
        \<lparr>format = None, maxLength = Some 0, maxDiffLength = None\<rparr>) LF))) \<le> 0 \<and>
   \<not> int (length (hd (split (postProcessMessage (''feat:abc'' @ [LF] @ ''body'')
        \<lparr>format = None, maxLength = Some 5, maxDiffLength = None\<rparr>) LF))) \<le> 5"
  by code_simp


end
